theory Spec2Isabelle
  imports Main "HOL-Library.Word"
begin

unbundle bit_operations_syntax

section \<open>Byte arrays, keys and errors\<close>

text \<open>
  A \<^verbatim>\<open>Uint8Array\<close> is a list of 8-bit words. The JavaScript numbers that hold tags,
  lengths and offsets are modelled as natural numbers; a JavaScript number is exact on the
  integers below \<open>2 ^ 53\<close>.
\<close>

type_synonym byte = "8 word"
type_synonym bytes = "byte list"

text \<open>\<^verbatim>\<open>api.ts\<close>: a key is \<^verbatim>\<open>CryptoKey | Uint8Array\<close>; a \<^verbatim>\<open>CryptoKey\<close> is an
  opaque platform handle.\<close>

datatype key = Uint8ArrayKey bytes | CryptoKey nat

text \<open>
  The exceptions of the program as values:
  \<^item> \<open>MalformedVarint\<close>: the \<^verbatim>\<open>RangeError('Could not decode varint')\<close> of the varint reader;
  \<^item> \<open>UnknownAlgorithm c\<close>: the \<^verbatim>\<open>Error(`Unknown signature header code: ${c}`)\<close> of
    \<^verbatim>\<open>inspectVarsig\<close>;
  \<^item> \<open>TypeError\<close>: calling a method of \<^verbatim>\<open>undefined\<close>;
  \<^item> \<open>RangeError\<close>: \<^verbatim>\<open>TypedArray.prototype.set\<close> past the end of its target;
  \<^item> \<open>CapabilityError n\<close>: whatever an external signing or verifying primitive raises.
\<close>

datatype error =
    MalformedVarint
  | UnknownAlgorithm nat
  | TypeError
  | RangeError
  | CapabilityError nat

text \<open>Typed-array primitives, for non-negative integer arguments: \<^verbatim>\<open>slice\<close> and
  \<^verbatim>\<open>subarray\<close> clamp to the array, an indexed store past the end is ignored (as
  \<open>xs[i := v]\<close> is), \<^verbatim>\<open>set\<close> raises when the source does not fit.\<close>

definition Uint8Array_new :: "nat \<Rightarrow> bytes" where
  "Uint8Array_new len = replicate len 0"

definition slice :: "bytes \<Rightarrow> nat \<Rightarrow> nat \<Rightarrow> bytes" where
  "slice a start fin = drop start (take fin a)"

definition subarray :: "bytes \<Rightarrow> nat \<Rightarrow> bytes" where
  "subarray a start = drop start a"

definition set_at :: "bytes \<Rightarrow> bytes \<Rightarrow> nat \<Rightarrow> error + bytes" where
  "set_at target source offset =
     (if length target < offset + length source then Inl RangeError
      else Inr (take offset target @ source @ drop (offset + length source) target))"

section \<open>Constants (\<^verbatim>\<open>constants.js\<close>)\<close>

definition VARSIG_PREFIX :: bytes where
  "VARSIG_PREFIX = [0x34]"

definition HASH_ALGO_SHA256 :: nat where
  "HASH_ALGO_SHA256 = 0x12"

definition ENCODING_INFO :: nat where
  "ENCODING_INFO = 0x5f"

text \<open>An object literal keeps its string keys in insertion order; \<^verbatim>\<open>Object.entries\<close>
  lists them in that order.\<close>

definition SIGNATURE_HEADER_TAGS :: "(string \<times> nat) list" where
  "SIGNATURE_HEADER_TAGS = [(''ed25519'', 0xed), (''rsa'', 0x1205), (''bls'', 0x1309)]"

section \<open>The varint codec of the \<^verbatim>\<open>multiformats\<close> dependency\<close>

text \<open>
  Modelled from the spec: the \<^verbatim>\<open>varint\<close> module of the \<^verbatim>\<open>multiformats\<close> package
  (\<^verbatim>\<open>encodingLength\<close>, \<^verbatim>\<open>encodeTo\<close>, \<^verbatim>\<open>decode\<close>) is a dependency whose source is not
  part of the repository. The spec (4.1): unsigned integers, 7 bits per byte, little-endian
  group order, the high bit set on all but the last byte; decoding fails when the buffer
  ends before a byte without the continuation bit; any valid encoding is accepted.
\<close>

fun varint_encodingLength :: "nat \<Rightarrow> nat" where
  "varint_encodingLength num =
     (if num < 128 then 1 else Suc (varint_encodingLength (num div 128)))"

fun varint_encodeTo :: "nat \<Rightarrow> bytes \<Rightarrow> nat \<Rightarrow> bytes" where
  "varint_encodeTo num out offset =
     (if num < 128 then out[offset := of_nat num]
      else varint_encodeTo (num div 128) (out[offset := of_nat (num mod 128) OR 0x80]) (Suc offset))"

fun varint_read :: "bytes \<Rightarrow> nat \<Rightarrow> nat \<Rightarrow> nat \<Rightarrow> error + (nat \<times> nat)" where
  "varint_read [] res shift counter = Inl MalformedVarint"
| "varint_read (b # buf) res shift counter =
     (let res' = res + unat (b AND 0x7F) * 2 ^ shift in
      if 0x80 \<le> b then varint_read buf res' (shift + 7) (Suc counter)
      else Inr (res', Suc counter))"

definition varint_decode :: "bytes \<Rightarrow> error + (nat \<times> nat)" where
  "varint_decode data = varint_read data 0 0 0"

declare varint_encodingLength.simps [simp del]
declare varint_encodeTo.simps [simp del]

section \<open>Varint helpers of \<^verbatim>\<open>index.js\<close>\<close>

definition encodeVarint :: "nat \<Rightarrow> bytes" where
  "encodeVarint code =
     (let len = varint_encodingLength code;
          bytes = Uint8Array_new len
      in varint_encodeTo code bytes 0)"

record decoded =
  value' :: nat
  length' :: nat
  nextOffset :: nat

definition decodeVarintAt :: "bytes \<Rightarrow> nat \<Rightarrow> error + decoded" where
  "decodeVarintAt buffer offset =
     (case varint_decode (subarray buffer offset) of
        Inl e \<Rightarrow> Inl e
      | Inr (v, l) \<Rightarrow> Inr \<lparr>value' = v, length' = l, nextOffset = offset + l\<rparr>)"

text \<open>The byte sequence that \<open>varint_encodeTo\<close> writes, as a list of its own; it is
  used to state what \<open>encodeVarint\<close> returns.\<close>

fun varint_bytes :: "nat \<Rightarrow> bytes" where
  "varint_bytes num =
     (if num < 128 then [of_nat num]
      else (of_nat (num mod 128) OR 0x80) # varint_bytes (num div 128))"

declare varint_bytes.simps [simp del]

section \<open>Hexadecimal text\<close>

text \<open>
  \<^verbatim>\<open>toString(bytes, 'hex')\<close> of \<^verbatim>\<open>uint8arrays\<close> prints two lower-case hexadecimal digits
  for each byte; \<^verbatim>\<open>Number.prototype.toString(16)\<close> prints a non-negative integer in
  lower-case hexadecimal with no leading zero.
\<close>

definition hexDigit :: "nat \<Rightarrow> char" where
  "hexDigit d = ''0123456789abcdef'' ! d"

definition toString_hex :: "bytes \<Rightarrow> string" where
  "toString_hex a = concat (map (\<lambda>b. [hexDigit (unat b div 16), hexDigit (unat b mod 16)]) a)"

fun number_toString16 :: "nat \<Rightarrow> string" where
  "number_toString16 n =
     (if n < 16 then [hexDigit n] else number_toString16 (n div 16) @ [hexDigit (n mod 16)])"

declare number_toString16.simps [simp del]

section \<open>Crypto implementations (\<^verbatim>\<open>api.ts\<close>, \<^verbatim>\<open>crypto/\<close>)\<close>

text \<open>The interface \<^verbatim>\<open>CryptoImplementation\<close>. Its \<^verbatim>\<open>verify\<close> is the field \<open>verify_impl\<close>
  here, \<open>verify\<close> being the function of \<^verbatim>\<open>index.js\<close>. An asynchronous capability is a
  function whose result is the value it resolves to or the error it rejects with.\<close>

record CryptoImplementation =
  sign :: "bytes \<Rightarrow> key \<Rightarrow> error + bytes"
  verify_impl :: "bytes \<Rightarrow> bytes \<Rightarrow> key \<Rightarrow> error + bool"
  getSignatureHeader :: nat
  getHashAlgorithm :: nat

text \<open>The primitives of the external libraries (\<^verbatim>\<open>@noble/ed25519\<close>, WebCrypto's
  \<^verbatim>\<open>crypto.subtle\<close>, \<^verbatim>\<open>@noble/curves\<close>) are parameters, with the argument order of
  their calls in the source. \<open>'pt\<close> is the type of a parsed BLS signature.\<close>

record 'pt CryptoLibs =
  ED25519_sign :: "bytes \<Rightarrow> key \<Rightarrow> error + bytes"
  ED25519_verify :: "bytes \<Rightarrow> bytes \<Rightarrow> key \<Rightarrow> error + bool"
  subtle_sign :: "key \<Rightarrow> bytes \<Rightarrow> error + bytes"
  subtle_verify :: "key \<Rightarrow> bytes \<Rightarrow> bytes \<Rightarrow> error + bool"
  bls_sign :: "bytes \<Rightarrow> key \<Rightarrow> error + bytes"
  bls_Signature_fromHex :: "bytes \<Rightarrow> error + 'pt"
  bls_verify :: "'pt \<Rightarrow> bytes \<Rightarrow> key \<Rightarrow> error + bool"

definition ed25519Implementation :: "'pt CryptoLibs \<Rightarrow> CryptoImplementation" where
  "ed25519Implementation L =
     \<lparr>sign = (\<lambda>payload privateKey. ED25519_sign L payload privateKey),
      verify_impl = (\<lambda>payload signature publicKey. ED25519_verify L signature payload publicKey),
      getSignatureHeader = the (map_of SIGNATURE_HEADER_TAGS ''ed25519''),
      getHashAlgorithm = HASH_ALGO_SHA256\<rparr>"

definition rsaImplementation :: "'pt CryptoLibs \<Rightarrow> CryptoImplementation" where
  "rsaImplementation L =
     \<lparr>sign = (\<lambda>payload privateKey. subtle_sign L privateKey payload),
      verify_impl = (\<lambda>payload signature publicKey. subtle_verify L publicKey signature payload),
      getSignatureHeader = the (map_of SIGNATURE_HEADER_TAGS ''rsa''),
      getHashAlgorithm = HASH_ALGO_SHA256\<rparr>"

definition blsImplementation :: "'pt CryptoLibs \<Rightarrow> CryptoImplementation" where
  "blsImplementation L =
     \<lparr>sign = (\<lambda>payload privateKey. bls_sign L payload privateKey),
      verify_impl = (\<lambda>payload signature publicKey.
         case bls_Signature_fromHex L signature of
           Inl e \<Rightarrow> Inl e
         | Inr sig \<Rightarrow> bls_verify L sig payload publicKey),
      getSignatureHeader = the (map_of SIGNATURE_HEADER_TAGS ''bls''),
      getHashAlgorithm = HASH_ALGO_SHA256\<rparr>"

definition cryptoAlgorithms :: "'pt CryptoLibs \<Rightarrow> (string \<times> CryptoImplementation) list" where
  "cryptoAlgorithms L =
     [(''ed25519'', ed25519Implementation L),
      (''rsa'', rsaImplementation L),
      (''bls'', blsImplementation L)]"

section \<open>\<^verbatim>\<open>index.js\<close>: create, inspectVarsig, verify\<close>

text \<open>A failing step ends the function with its error, as a thrown exception does. In
  \<^verbatim>\<open>inspectVarsig\<close> the test \<^verbatim>\<open>!signatureHeaderMatched\<close> holds exactly when \<^verbatim>\<open>find\<close> found no
  entry: every name of the tag table is a non-empty string.\<close>

definition bind_result :: "error + 'a \<Rightarrow> ('a \<Rightarrow> error + 'b) \<Rightarrow> error + 'b" where
  "bind_result m f = (case m of Inl e \<Rightarrow> Inl e | Inr x \<Rightarrow> f x)"

text \<open>One \<^verbatim>\<open>varsig.set(source, offset); offset += source.length\<close> of \<^verbatim>\<open>create\<close>, on the
  pair of the array and the offset.\<close>

definition set_advance :: "bytes \<Rightarrow> bytes \<times> nat \<Rightarrow> error + bytes \<times> nat" where
  "set_advance source st =
     (case st of (varsig, offset) \<Rightarrow>
        bind_result (set_at varsig source offset) (\<lambda>varsig'. Inr (varsig', offset + length source)))"

definition create :: "bytes \<Rightarrow> CryptoImplementation \<Rightarrow> key \<Rightarrow> error + bytes" where
  "create payload cryptoImplementation privateKey =
     (let prefix = VARSIG_PREFIX;
          signatureHeaderBytes = encodeVarint (getSignatureHeader cryptoImplementation);
          hashAlgorithmBytes = encodeVarint (getHashAlgorithm cryptoImplementation)
      in bind_result (sign cryptoImplementation payload privateKey) (\<lambda>signature.
         let signatureLengthBytes = encodeVarint (length signature);
             encodingInfoBytes = encodeVarint ENCODING_INFO;
             totalLength =
               length prefix +
               length signatureHeaderBytes +
               length hashAlgorithmBytes +
               length signatureLengthBytes +
               length encodingInfoBytes +
               length signature;
             varsig = Uint8Array_new totalLength
         in bind_result (set_advance prefix (varsig, 0)) (\<lambda>st.
            bind_result (set_advance signatureHeaderBytes st) (\<lambda>st.
            bind_result (set_advance hashAlgorithmBytes st) (\<lambda>st.
            bind_result (set_advance signatureLengthBytes st) (\<lambda>st.
            bind_result (set_advance encodingInfoBytes st) (\<lambda>(varsig, offset).
            set_at varsig signature offset)))))))"

record inspection =
  prefix :: string
  signatureHeader :: string
  hashAlgorithm :: string
  signatureByteLength :: string
  encodingInfo :: string
  signature :: bytes
  algorithm :: string
  totalLength :: nat

definition inspectVarsig :: "bytes \<Rightarrow> error + inspection" where
  "inspectVarsig varsig =
     (let prefixLength = length VARSIG_PREFIX;
          prefix = slice varsig 0 prefixLength
      in bind_result (decodeVarintAt varsig prefixLength) (\<lambda>sh.
         case map_option fst (find (\<lambda>(algo, code). code = value' sh) SIGNATURE_HEADER_TAGS) of
           None \<Rightarrow> Inl (UnknownAlgorithm (value' sh))
         | Some signatureHeaderMatched \<Rightarrow>
         bind_result (decodeVarintAt varsig (nextOffset sh)) (\<lambda>ha.
         bind_result (decodeVarintAt varsig (nextOffset ha)) (\<lambda>sl.
         let signatureLengthBytes = slice varsig (nextOffset ha) (nextOffset ha + length' sl)
         in bind_result (decodeVarintAt varsig (nextOffset sl)) (\<lambda>ei.
         let signatureStart = nextOffset ei;
             signatureEnd = signatureStart + value' sl;
             signature = slice varsig signatureStart signatureEnd
         in Inr \<lparr>prefix = toString_hex prefix,
                 signatureHeader = number_toString16 (value' sh),
                 hashAlgorithm = number_toString16 (value' ha),
                 signatureByteLength = toString_hex signatureLengthBytes,
                 encodingInfo = number_toString16 (value' ei),
                 signature = signature,
                 algorithm = signatureHeaderMatched,
                 totalLength = length varsig\<rparr>)))))"

definition verify :: "'pt CryptoLibs \<Rightarrow> bytes \<Rightarrow> bytes \<Rightarrow> key \<Rightarrow> error + bool" where
  "verify L payload varsig publicKey =
     bind_result (inspectVarsig varsig) (\<lambda>r.
       case map_of (cryptoAlgorithms L) (algorithm r) of
         None \<Rightarrow> Inl TypeError
       | Some cryptoImplementation \<Rightarrow>
           verify_impl cryptoImplementation payload (signature r) publicKey)"

text \<open>A library instance for concrete runs: signatures are zero bytes of the algorithm's
  length, a BLS signature parses only when it is 96 bytes long, verification compares the
  signature with the one \<open>sign\<close> would produce.\<close>

definition demoLibs :: "bytes CryptoLibs" where
  "demoLibs =
     \<lparr>ED25519_sign = (\<lambda>payload privateKey. Inr (replicate 64 0)),
      ED25519_verify = (\<lambda>signature payload publicKey. Inr (signature = replicate 64 0)),
      subtle_sign = (\<lambda>privateKey payload. Inr (replicate 256 0)),
      subtle_verify = (\<lambda>publicKey signature payload. Inr (signature = replicate 256 0)),
      bls_sign = (\<lambda>payload privateKey. Inr (replicate 96 0)),
      bls_Signature_fromHex = (\<lambda>hex. if length hex = 96 then Inr hex else Inl (CapabilityError 0)),
      bls_verify = (\<lambda>sig payload publicKey. Inr (sig = replicate 96 0))\<rparr>"

section \<open>Bytes of a varint\<close>

lemma low7: "unat ((b :: byte) AND 0x7F) = unat b mod 128"
proof -
  have "(0x7F :: byte) = mask 7" by (simp add: mask_eq_exp_minus_1)
  then have "b AND 0x7F = take_bit 7 b" by (simp add: take_bit_eq_mask)
  then have "unat (b AND 0x7F) = take_bit 7 (unat b)" by (simp only: unsigned_take_bit_eq)
  then show ?thesis by (simp add: take_bit_eq_mod)
qed

lemma continuation_iff: "(0x80 \<le> (b :: byte)) = (128 \<le> unat b)"
  by (simp add: word_le_nat_alt)

lemma nat_or_128: "r < 128 \<Longrightarrow> (r::nat) OR 128 = r + 128"
proof -
  assume r: "r < 128"
  have "\<not> bit r 7" using r by (simp add: bit_iff_odd)
  then have "r AND 128 = 0" using and_exp_eq_0_iff_not_bit[of r 7] by simp
  then have "r + 128 = r OR 128" by (rule disjunctive_add_eq_or)
  then show ?thesis by simp
qed

lemma unat_high_bit: "r < 128 \<Longrightarrow> unat ((of_nat r :: byte) OR 0x80) = r + 128"
  by (simp add: unsigned_or_eq unat_of_nat nat_or_128)

lemma length_varint_bytes: "length (varint_bytes n) = varint_encodingLength n"
  by (induction n rule: varint_bytes.induct)
     (subst varint_bytes.simps, subst varint_encodingLength.simps, simp)

lemma varint_encodeTo_bytes:
  "offset + varint_encodingLength num \<le> length out \<Longrightarrow>
   varint_encodeTo num out offset =
     take offset out @ varint_bytes num @ drop (offset + varint_encodingLength num) out"
proof (induction num out offset rule: varint_encodeTo.induct)
  case (1 num out offset)
  show ?case
  proof (cases "num < 128")
    case True
    with "1.prems" have "offset < length out"
      by (simp add: varint_encodingLength.simps)
    then show ?thesis using True
      by (simp add: varint_encodeTo.simps varint_bytes.simps varint_encodingLength.simps
          upd_conv_take_nth_drop)
  next
    case False
    let ?b = "(of_nat (num mod 128) OR 0x80) :: byte"
    from False "1.prems" have len: "Suc offset + varint_encodingLength (num div 128) \<le> length out"
      by (simp add: varint_encodingLength.simps)
    then have off: "offset < length out" by simp
    have step: "varint_encodeTo num out offset
        = varint_encodeTo (num div 128) (out[offset := ?b]) (Suc offset)"
      using False by (subst varint_encodeTo.simps) simp
    have ih: "varint_encodeTo (num div 128) (out[offset := ?b]) (Suc offset)
        = take (Suc offset) (out[offset := ?b]) @ varint_bytes (num div 128)
        @ drop (Suc offset + varint_encodingLength (num div 128)) (out[offset := ?b])"
      using "1.IH" [OF False] len by simp
    have tk: "take (Suc offset) (out[offset := ?b]) = take offset out @ [?b]"
      using off by (simp add: take_Suc_conv_app_nth)
    have el: "varint_encodingLength num = Suc (varint_encodingLength (num div 128))"
      using False by (subst varint_encodingLength.simps) simp
    have dr: "drop (Suc offset + varint_encodingLength (num div 128)) (out[offset := ?b])
        = drop (offset + varint_encodingLength num) out"
      by (simp add: el)
    have vb: "varint_bytes num = ?b # varint_bytes (num div 128)"
      using False by (subst varint_bytes.simps) simp
    show ?thesis
      by (simp only: step ih tk dr vb append_assoc append_Cons append_Nil)
  qed
qed

lemma encodeVarint_bytes: "encodeVarint code = varint_bytes code"
  by (simp add: encodeVarint_def Uint8Array_new_def Let_def varint_encodeTo_bytes
      flip: length_varint_bytes)

lemma length_encodeVarint: "length (encodeVarint code) = varint_encodingLength code"
  by (simp add: encodeVarint_bytes length_varint_bytes)

section \<open>Reading a varint\<close>

lemma varint_read_bytes:
  "varint_read (varint_bytes n @ rest) res shift counter =
     Inr (res + n * 2 ^ shift, counter + varint_encodingLength n)"
proof (induction n arbitrary: res shift counter rule: varint_bytes.induct)
  case (1 num)
  show ?case
  proof (cases "num < 128")
    case True
    then show ?thesis
      by (simp add: varint_bytes.simps varint_encodingLength.simps low7 continuation_iff
          unat_of_nat)
  next
    case False
    have "num mod 128 * 2 ^ shift + num div 128 * 2 ^ (shift + 7) = num * 2 ^ shift"
    proof -
      have "num div 128 * 2 ^ (shift + 7) = num div 128 * 128 * 2 ^ shift"
        by (simp add: power_add)
      then have "num mod 128 * 2 ^ shift + num div 128 * 2 ^ (shift + 7)
          = (num mod 128 + num div 128 * 128) * 2 ^ shift"
        by (simp only: distrib_right)
      also have "num mod 128 + num div 128 * 128 = num"
        by (rule mod_div_mult_eq)
      finally show ?thesis .
    qed
    then show ?thesis using False "1.IH" [OF False]
      by (subst varint_bytes.simps, subst varint_encodingLength.simps)
         (simp add: low7 continuation_iff unat_high_bit Let_def)
  qed
qed

lemma varint_read_all_continued:
  "\<forall>b \<in> set buf. 0x80 \<le> b \<Longrightarrow> varint_read buf res shift counter = Inl MalformedVarint"
  by (induction buf arbitrary: res shift counter) (simp_all add: Let_def)

lemma decodeVarintAt_append:
  "decodeVarintAt (pre @ encodeVarint n @ rest) (length pre) =
     Inr \<lparr>value' = n, length' = varint_encodingLength n,
          nextOffset = length pre + varint_encodingLength n\<rparr>"
  by (simp add: decodeVarintAt_def subarray_def varint_decode_def encodeVarint_bytes
      varint_read_bytes)

section \<open>The varint codec: claims C5, C6, C7\<close>

text \<open>
  C5. For each of the values 0, 127, 128, 16383, 16384, 0xed, 0x12, 0x5f, 0x1205 and
  0x1309, decoding the varint encoding of the value at offset 0 yields the value and the
  length of its encoding (the next offset is that length too).
\<close>

theorem varint_edge_cases_roundtrip:
  "list_all
     (\<lambda>v. decodeVarintAt (encodeVarint v) 0 =
        Inr \<lparr>value' = v, length' = length (encodeVarint v),
             nextOffset = length (encodeVarint v)\<rparr>)
     [0, 127, 128, 16383, 16384, 0xed, 0x12, 0x5f, 0x1205, 0x1309]"
proof -
  have "decodeVarintAt (encodeVarint v) 0 =
        Inr \<lparr>value' = v, length' = length (encodeVarint v),
             nextOffset = length (encodeVarint v)\<rparr>" for v
    using decodeVarintAt_append [of "[]" v "[]"] by (simp add: length_encodeVarint)
  then show ?thesis by simp
qed

text \<open>
  C6. Decoding a varint at an offset fails with the malformed-varint error whenever the
  offset is at or past the end of the buffer, and whenever every byte from the offset to
  the end of the buffer has its continuation bit set.
\<close>

theorem decodeVarintAt_malformed:
  assumes "length buffer \<le> offset \<or> (\<forall>b \<in> set (drop offset buffer). 0x80 \<le> b)"
  shows "decodeVarintAt buffer offset = Inl MalformedVarint"
proof -
  from assms have "\<forall>b \<in> set (drop offset buffer). 0x80 \<le> b" by auto
  then show ?thesis
    by (simp add: decodeVarintAt_def subarray_def varint_decode_def varint_read_all_continued)
qed

theorem decodeVarintAt_malformed_witness:
  "decodeVarintAt [0x34, 0xed] 2 = Inl MalformedVarint
   \<and> decodeVarintAt [0x34, 0xed, 0x85] 1 = Inl MalformedVarint"
proof -
  have a: "length [0x34, 0xed :: byte] \<le> 2
      \<or> (\<forall>b \<in> set (drop 2 [0x34, 0xed :: byte]). 0x80 \<le> b)" by simp
  have b: "length [0x34, 0xed, 0x85 :: byte] \<le> 1
      \<or> (\<forall>b \<in> set (drop 1 [0x34, 0xed, 0x85 :: byte]). 0x80 \<le> b)" by simp
  show ?thesis
    using decodeVarintAt_malformed [OF a] decodeVarintAt_malformed [OF b] by simp
qed

text \<open>
  C7, as stated: the encodings of the tags 0xed, 0x1205 and 0x1309 are 1, 2 and 2 bytes
  long. The tag 0xed is 237, which does not fit in 7 bits: its encoding is the two bytes
  0xed 0x01.
\<close>

theorem tag_widths_counterexample:
  "encodeVarint 0xed = [0xed, 0x01] \<and> length (encodeVarint 0xed) \<noteq> 1"
  by code_simp

text \<open>
  C7, amended: the encoding of each built-in signature-header tag is 2 bytes long.
\<close>

theorem tag_widths:
  "map (\<lambda>(algo, code). (algo, length (encodeVarint code))) SIGNATURE_HEADER_TAGS =
     [(''ed25519'', 2), (''rsa'', 2), (''bls'', 2)]
   \<and> length (encodeVarint 0xed) = 2
   \<and> length (encodeVarint 0x1205) = 2
   \<and> length (encodeVarint 0x1309) = 2"
  by code_simp

section \<open>Writing the envelope\<close>

lemma set_at_fits:
  "length source \<le> n \<Longrightarrow>
   set_at (w @ replicate n 0) source (length w) =
     Inr ((w @ source) @ replicate (n - length source) 0)"
  by (simp add: set_at_def)

lemma set_advance_fits:
  "length source \<le> n \<Longrightarrow>
   set_advance source (w @ replicate n 0, length w) =
     Inr ((w @ source) @ replicate (n - length source) 0, length (w @ source))"
  by (simp add: set_advance_def bind_result_def set_at_fits del: append_assoc)

lemma create_concat:
  assumes "sign impl payload sk = Inr sig"
  shows "create payload impl sk =
     Inr (VARSIG_PREFIX @ encodeVarint (getSignatureHeader impl)
          @ encodeVarint (getHashAlgorithm impl) @ encodeVarint (length sig)
          @ encodeVarint ENCODING_INFO @ sig)"
proof -
  let ?p = VARSIG_PREFIX
  let ?h = "encodeVarint (getSignatureHeader impl)"
  let ?a = "encodeVarint (getHashAlgorithm impl)"
  let ?l = "encodeVarint (length sig)"
  let ?e = "encodeVarint ENCODING_INFO"
  let ?n = "length ?p + length ?h + length ?a + length ?l + length ?e + length sig"
  let ?n1 = "?n - length ?p"
  let ?n2 = "?n1 - length ?h"
  let ?n3 = "?n2 - length ?a"
  let ?n4 = "?n3 - length ?l"
  let ?n5 = "?n4 - length ?e"
  have s1: "set_advance ?p (Uint8Array_new ?n, 0) = Inr (?p @ replicate ?n1 0, length ?p)"
    using set_advance_fits [of ?p ?n "[]"] by (simp add: Uint8Array_new_def)
  have s2: "set_advance ?h (?p @ replicate ?n1 0, length ?p) =
      Inr ((?p @ ?h) @ replicate ?n2 0, length (?p @ ?h))"
    by (rule set_advance_fits) simp
  have s3: "set_advance ?a ((?p @ ?h) @ replicate ?n2 0, length (?p @ ?h)) =
      Inr (((?p @ ?h) @ ?a) @ replicate ?n3 0, length ((?p @ ?h) @ ?a))"
    by (rule set_advance_fits) simp
  have s4: "set_advance ?l (((?p @ ?h) @ ?a) @ replicate ?n3 0, length ((?p @ ?h) @ ?a)) =
      Inr ((((?p @ ?h) @ ?a) @ ?l) @ replicate ?n4 0, length (((?p @ ?h) @ ?a) @ ?l))"
    by (rule set_advance_fits) simp
  have s5: "set_advance ?e ((((?p @ ?h) @ ?a) @ ?l) @ replicate ?n4 0,
        length (((?p @ ?h) @ ?a) @ ?l)) =
      Inr (((((?p @ ?h) @ ?a) @ ?l) @ ?e) @ replicate ?n5 0,
        length ((((?p @ ?h) @ ?a) @ ?l) @ ?e))"
    by (rule set_advance_fits) simp
  have s6: "set_at (((((?p @ ?h) @ ?a) @ ?l) @ ?e) @ replicate ?n5 0) sig
        (length ((((?p @ ?h) @ ?a) @ ?l) @ ?e)) =
      Inr ((((((?p @ ?h) @ ?a) @ ?l) @ ?e) @ sig) @ replicate (?n5 - length sig) 0)"
    by (rule set_at_fits) simp
  have "create payload impl sk =
      Inr ((((((?p @ ?h) @ ?a) @ ?l) @ ?e) @ sig) @ replicate (?n5 - length sig) 0)"
    unfolding create_def Let_def assms bind_result_def sum.case s1 s2 s3 s4 s5 prod.case s6 ..
  then show ?thesis by simp
qed

section \<open>Reading an envelope back\<close>

lemma slice_append_mid:
  "slice (pre @ mid @ rest) (length pre) (length pre + length mid) = mid"
  by (simp add: slice_def)

lemma slice_append_tail:
  "slice (pre @ rest) (length pre) (length pre + n) = take n rest"
  by (simp add: slice_def)

lemma inspectVarsig_envelope:
  assumes tag: "find (\<lambda>(algo, code). code = h) SIGNATURE_HEADER_TAGS = Some (name, c)"
  shows "inspectVarsig ([p] @ encodeVarint h @ encodeVarint a @ encodeVarint n
            @ encodeVarint e @ rest) =
     Inr \<lparr>prefix = toString_hex [p],
          signatureHeader = number_toString16 h,
          hashAlgorithm = number_toString16 a,
          signatureByteLength = toString_hex (encodeVarint n),
          encodingInfo = number_toString16 e,
          signature = take n rest,
          algorithm = name,
          totalLength = 1 + length (encodeVarint h) + length (encodeVarint a)
            + length (encodeVarint n) + length (encodeVarint e) + length rest\<rparr>"
proof -
  let ?H = "encodeVarint h" and ?A = "encodeVarint a" and ?N = "encodeVarint n"
    and ?E = "encodeVarint e"
  let ?buf = "[p] @ ?H @ ?A @ ?N @ ?E @ rest"
  let ?o1 = "1 + varint_encodingLength h"
  let ?o2 = "?o1 + varint_encodingLength a"
  let ?o3 = "?o2 + varint_encodingLength n"
  let ?o4 = "?o3 + varint_encodingLength e"
  have d1: "decodeVarintAt ?buf (length VARSIG_PREFIX) =
      Inr \<lparr>value' = h, length' = varint_encodingLength h, nextOffset = ?o1\<rparr>"
    using decodeVarintAt_append [of "[p]" h "?A @ ?N @ ?E @ rest"]
    by (simp add: VARSIG_PREFIX_def)
  have d2: "decodeVarintAt ?buf ?o1 =
      Inr \<lparr>value' = a, length' = varint_encodingLength a, nextOffset = ?o2\<rparr>"
    using decodeVarintAt_append [of "[p] @ ?H" a "?N @ ?E @ rest"]
    by (simp add: length_encodeVarint add.assoc)
  have d3: "decodeVarintAt ?buf ?o2 =
      Inr \<lparr>value' = n, length' = varint_encodingLength n, nextOffset = ?o3\<rparr>"
    using decodeVarintAt_append [of "[p] @ ?H @ ?A" n "?E @ rest"]
    by (simp add: length_encodeVarint add.assoc)
  have d4: "decodeVarintAt ?buf ?o3 =
      Inr \<lparr>value' = e, length' = varint_encodingLength e, nextOffset = ?o4\<rparr>"
    using decodeVarintAt_append [of "[p] @ ?H @ ?A @ ?N" e rest]
    by (simp add: length_encodeVarint add.assoc)
  have p: "slice ?buf 0 (length VARSIG_PREFIX) = [p]"
    by (simp add: slice_def VARSIG_PREFIX_def)
  have l: "slice ?buf ?o2 (?o2 + varint_encodingLength n) = ?N"
    using slice_append_mid [of "[p] @ ?H @ ?A" ?N "?E @ rest"]
    by (simp add: length_encodeVarint add.assoc)
  have s: "slice ?buf ?o4 (?o4 + n) = take n rest"
    using slice_append_tail [of "[p] @ ?H @ ?A @ ?N @ ?E" rest n]
    by (simp add: length_encodeVarint add.assoc)
  show ?thesis
    unfolding inspectVarsig_def Let_def
    by (simp only: d1 d2 d3 d4 p l s tag bind_result_def sum.case decoded.simps
        option.map option.case fst_conv)
       (simp add: length_encodeVarint)
qed


text \<open>The hexadecimal text of a number determines the number.\<close>

lemma hexDigit_inj: "a < 16 \<Longrightarrow> b < 16 \<Longrightarrow> hexDigit a = hexDigit b \<Longrightarrow> a = b"
proof -
  assume a: "a < 16" and b: "b < 16" and eq: "hexDigit a = hexDigit b"
  have d: "distinct ''0123456789abcdef''" by simp
  have l: "length ''0123456789abcdef'' = 16" by simp
  from nth_eq_iff_index_eq [OF d, of a b] a b eq show ?thesis
    by (simp add: hexDigit_def)
qed

lemma number_toString16_nonempty: "number_toString16 n \<noteq> []"
  by (subst number_toString16.simps) simp

lemma number_toString16_inj:
  "number_toString16 a = number_toString16 b \<Longrightarrow> a = b"
proof (induction a arbitrary: b rule: number_toString16.induct)
  case (1 a)
  show ?case
  proof (cases "a < 16")
    case True
    show ?thesis
    proof (cases "b < 16")
      case b: True
      from "1.prems" True b have "hexDigit a = hexDigit b"
        by (simp add: number_toString16.simps)
      with True b show ?thesis by (rule hexDigit_inj)
    next
      case False
      with "1.prems" True show ?thesis
        using number_toString16_nonempty [of "b div 16"]
        by (simp add: number_toString16.simps [of a] number_toString16.simps [of b])
    qed
  next
    case False
    show ?thesis
    proof (cases "b < 16")
      case True
      with "1.prems" False show ?thesis
        using number_toString16_nonempty [of "a div 16"]
        by (simp add: number_toString16.simps [of a] number_toString16.simps [of b])
    next
      case b: False
      from "1.prems" False b
      have "number_toString16 (a div 16) = number_toString16 (b div 16)"
        and h: "hexDigit (a mod 16) = hexDigit (b mod 16)"
        by (simp_all add: number_toString16.simps [of a] number_toString16.simps [of b])
      then have "a div 16 = b div 16" using "1.IH" [OF False] by simp
      moreover from h have "a mod 16 = b mod 16"
        by (intro hexDigit_inj) simp_all
      ultimately show ?thesis by (metis div_mult_mod_eq)
    qed
  qed
qed

lemma builtin_cases:
  "impl \<in> snd ` set (cryptoAlgorithms L) \<Longrightarrow>
   impl = ed25519Implementation L \<or> impl = rsaImplementation L \<or> impl = blsImplementation L"
  by (auto simp: cryptoAlgorithms_def)

lemma builtin_tag:
  assumes "impl \<in> snd ` set (cryptoAlgorithms L)"
  shows "\<exists>name. find (\<lambda>(algo, code). code = getSignatureHeader impl) SIGNATURE_HEADER_TAGS
           = Some (name, getSignatureHeader impl)
         \<and> map_of (cryptoAlgorithms L) name = Some impl"
  using builtin_cases [OF assms]
  by (auto simp: cryptoAlgorithms_def SIGNATURE_HEADER_TAGS_def ed25519Implementation_def
      rsaImplementation_def blsImplementation_def)

lemma create_inspect:
  assumes sig: "sign impl payload sk = Inr sig"
    and tag: "find (\<lambda>(algo, code). code = getSignatureHeader impl) SIGNATURE_HEADER_TAGS
           = Some (name, c)"
  shows "\<exists>varsig. create payload impl sk = Inr varsig \<and>
     inspectVarsig varsig =
       Inr \<lparr>prefix = toString_hex VARSIG_PREFIX,
            signatureHeader = number_toString16 (getSignatureHeader impl),
            hashAlgorithm = number_toString16 (getHashAlgorithm impl),
            signatureByteLength = toString_hex (encodeVarint (length sig)),
            encodingInfo = number_toString16 ENCODING_INFO,
            signature = sig,
            algorithm = name,
            totalLength = 1 + length (encodeVarint (getSignatureHeader impl))
              + length (encodeVarint (getHashAlgorithm impl))
              + length (encodeVarint (length sig))
              + length (encodeVarint ENCODING_INFO) + length sig\<rparr>"
  using create_concat [OF sig]
    inspectVarsig_envelope [OF tag, of "0x34" "getHashAlgorithm impl" "length sig"
      ENCODING_INFO sig]
  by (simp add: VARSIG_PREFIX_def)

section \<open>The envelope: claims C1, C2, C8\<close>

text \<open>
  C1. Whenever the signing capability succeeds and returns \<open>signatureBytes\<close>, create returns
  the prefix byte 0x34, followed by the varints of the signature-header tag, of the
  hash-algorithm tag, of the number of signature bytes and of 0x5f, followed by the
  signature bytes; the length of the returned array is the length of the prefix plus the
  varint byte lengths of the four fields plus the number of signature bytes.
\<close>

theorem create_envelope:
  assumes "sign impl payload privateKey = Inr signatureBytes"
  shows "create payload impl privateKey =
       Inr ([0x34] @ encodeVarint (getSignatureHeader impl)
            @ encodeVarint (getHashAlgorithm impl)
            @ encodeVarint (length signatureBytes)
            @ encodeVarint 0x5f @ signatureBytes)
     \<and> (\<exists>varsig. create payload impl privateKey = Inr varsig \<and>
          length varsig =
            length VARSIG_PREFIX
            + varint_encodingLength (getSignatureHeader impl)
            + varint_encodingLength (getHashAlgorithm impl)
            + varint_encodingLength (length signatureBytes)
            + varint_encodingLength ENCODING_INFO
            + length signatureBytes)"
  using create_concat [OF assms]
  by (simp add: VARSIG_PREFIX_def ENCODING_INFO_def length_encodeVarint)

theorem create_envelope_witness:
  "sign (rsaImplementation demoLibs) [0x68, 0x69] (CryptoKey 1) = Inr (replicate 256 0)
   \<and> create [0x68, 0x69] (rsaImplementation demoLibs) (CryptoKey 1) =
       Inr ([0x34, 0x85, 0x24, 0x12, 0x80, 0x02, 0x5f] @ replicate 256 0)"
proof -
  have s: "sign (rsaImplementation demoLibs) [0x68, 0x69] (CryptoKey 1) = Inr (replicate 256 0)"
    by (simp add: rsaImplementation_def demoLibs_def)
  have h: "getSignatureHeader (rsaImplementation demoLibs) = 0x1205"
    by (simp add: rsaImplementation_def SIGNATURE_HEADER_TAGS_def)
  have a: "getHashAlgorithm (rsaImplementation demoLibs) = 0x12"
    by (simp add: rsaImplementation_def HASH_ALGO_SHA256_def)
  have e1: "encodeVarint 0x1205 = [0x85, 0x24]" by code_simp
  have e2: "encodeVarint 0x12 = [0x12]" by code_simp
  have e3: "encodeVarint 256 = [0x80, 0x02]" by code_simp
  have e4: "encodeVarint 0x5f = [0x5f]" by code_simp
  show ?thesis
    using s create_envelope [OF s] by (simp add: h a e1 e2 e3 e4)
qed

text \<open>
  C2. For every built-in algorithm and every payload, when the signing capability returns a
  signature, inspecting the varsig that create returns recovers the hexadecimal text of the
  algorithm's signature-header tag, of its hash-algorithm tag and of the constant 0x5f, and
  a signature field that is the signature returned by \<open>sign\<close>, so of the same length
  (64, 256 or 96 bytes when the capability returns that many). The inspector reports the
  three numbers as hexadecimal text, which determines them (\<open>number_toString16_inj\<close>).
\<close>

theorem create_inspect_roundtrip:
  assumes "impl \<in> snd ` set (cryptoAlgorithms L)"
    and "sign impl payload privateKey = Inr sig"
  shows "\<exists>varsig r. create payload impl privateKey = Inr varsig
     \<and> inspectVarsig varsig = Inr r
     \<and> signatureHeader r = number_toString16 (getSignatureHeader impl)
     \<and> hashAlgorithm r = number_toString16 (getHashAlgorithm impl)
     \<and> encodingInfo r = number_toString16 0x5f
     \<and> signature r = sig
     \<and> length (signature r) = length sig"
proof -
  from builtin_tag [OF assms(1)] obtain name where
    "find (\<lambda>(algo, code). code = getSignatureHeader impl) SIGNATURE_HEADER_TAGS
       = Some (name, getSignatureHeader impl)"
    by blast
  from create_inspect [OF assms(2) this] show ?thesis
    by (auto simp: ENCODING_INFO_def)
qed

theorem create_inspect_roundtrip_witness:
  "blsImplementation demoLibs \<in> snd ` set (cryptoAlgorithms demoLibs)
   \<and> sign (blsImplementation demoLibs) [0x68, 0x69] (Uint8ArrayKey [7]) = Inr (replicate 96 0)
   \<and> (\<exists>varsig r. create [0x68, 0x69] (blsImplementation demoLibs) (Uint8ArrayKey [7]) = Inr varsig
        \<and> inspectVarsig varsig = Inr r
        \<and> signatureHeader r = ''1309'' \<and> hashAlgorithm r = ''12''
        \<and> encodingInfo r = ''5f'' \<and> length (signature r) = 96)"
proof -
  have m: "blsImplementation demoLibs \<in> snd ` set (cryptoAlgorithms demoLibs)"
    by (simp add: cryptoAlgorithms_def)
  have s: "sign (blsImplementation demoLibs) [0x68, 0x69] (Uint8ArrayKey [7])
      = Inr (replicate 96 0)"
    by (simp add: blsImplementation_def demoLibs_def)
  have h: "getSignatureHeader (blsImplementation demoLibs) = 0x1309"
    by (simp add: blsImplementation_def SIGNATURE_HEADER_TAGS_def)
  have a: "getHashAlgorithm (blsImplementation demoLibs) = 0x12"
    by (simp add: blsImplementation_def HASH_ALGO_SHA256_def)
  have t1: "number_toString16 0x1309 = ''1309''" by code_simp
  have t2: "number_toString16 0x12 = ''12''" by code_simp
  have t3: "number_toString16 0x5f = ''5f''" by code_simp
  from create_inspect_roundtrip [OF m s] show ?thesis
    using m s by (auto simp: h a t1 t2 t3)
qed

text \<open>
  C8. For every payload, if the Ed25519 signing capability returns a signature of 64 bytes,
  then inspecting the varsig that create produces with the ed25519 implementation reports
  the prefix "34", the signature header "ed", the hash algorithm "12", the encoding info
  "5f", a signature of 64 bytes and the total length 70.
\<close>

theorem ed25519_scenario:
  assumes "ED25519_sign L payload privateKey = Inr sig" and "length sig = 64"
  shows "\<exists>varsig r. create payload (ed25519Implementation L) privateKey = Inr varsig
     \<and> inspectVarsig varsig = Inr r
     \<and> prefix r = ''34''
     \<and> signatureHeader r = ''ed''
     \<and> hashAlgorithm r = ''12''
     \<and> encodingInfo r = ''5f''
     \<and> length (signature r) = 64
     \<and> totalLength r = 70"
proof -
  have s: "sign (ed25519Implementation L) payload privateKey = Inr sig"
    using assms(1) by (simp add: ed25519Implementation_def)
  have h: "getSignatureHeader (ed25519Implementation L) = 0xed"
    by (simp add: ed25519Implementation_def SIGNATURE_HEADER_TAGS_def)
  have a: "getHashAlgorithm (ed25519Implementation L) = 0x12"
    by (simp add: ed25519Implementation_def HASH_ALGO_SHA256_def)
  have tag: "find (\<lambda>(algo, code). code = getSignatureHeader (ed25519Implementation L))
      SIGNATURE_HEADER_TAGS = Some (''ed25519'', 0xed)"
    by (simp add: h SIGNATURE_HEADER_TAGS_def)
  have t0: "toString_hex VARSIG_PREFIX = ''34''" by code_simp
  have t1: "number_toString16 0xed = ''ed''" by code_simp
  have t2: "number_toString16 0x12 = ''12''" by code_simp
  have t3: "number_toString16 ENCODING_INFO = ''5f''" by code_simp
  have l1: "length (encodeVarint 0xed) = 2" by code_simp
  have l2: "length (encodeVarint 0x12) = 1" by code_simp
  have l3: "length (encodeVarint 64) = 1" by code_simp
  have l4: "length (encodeVarint ENCODING_INFO) = 1" by code_simp
  from create_inspect [OF s tag] show ?thesis
    by (auto simp: h a t0 t1 t2 t3 l1 l2 l3 l4 assms(2))
qed

theorem ed25519_scenario_witness:
  "ED25519_sign demoLibs [0x68, 0x69] (Uint8ArrayKey [7]) = Inr (replicate 64 0)
   \<and> length (replicate 64 (0 :: byte)) = 64
   \<and> (\<exists>varsig r. create [0x68, 0x69] (ed25519Implementation demoLibs) (Uint8ArrayKey [7])
          = Inr varsig
        \<and> inspectVarsig varsig = Inr r
        \<and> prefix r = ''34'' \<and> signatureHeader r = ''ed'' \<and> hashAlgorithm r = ''12''
        \<and> encodingInfo r = ''5f'' \<and> length (signature r) = 64 \<and> totalLength r = 70)"
proof -
  have s: "ED25519_sign demoLibs [0x68, 0x69] (Uint8ArrayKey [7]) = Inr (replicate 64 0)"
    by (simp add: demoLibs_def)
  have l: "length (replicate 64 (0 :: byte)) = 64" by simp
  from ed25519_scenario [OF s l] show ?thesis using s l by simp
qed

section \<open>The first byte, truncation and the tag table\<close>

lemma inspectVarsig_first_byte:
  "inspectVarsig (b2 # rest) =
     map_sum id (\<lambda>r. r\<lparr>prefix := toString_hex [b2]\<rparr>) (inspectVarsig (b1 # rest))"
  by (simp add: inspectVarsig_def decodeVarintAt_def subarray_def slice_def bind_result_def
      VARSIG_PREFIX_def Let_def split: sum.splits option.splits prod.splits)

lemma varint_read_counter:
  "varint_read buf res shift counter = Inr (v, c') \<Longrightarrow> counter < c' \<and> c' \<le> counter + length buf"
  by (induction buf arbitrary: res shift counter)
     (force simp: Let_def split: if_splits)+

lemma varint_read_take:
  "varint_read buf res shift counter = Inr (v, c') \<Longrightarrow>
   varint_read (take k buf) res shift counter =
     (if k < c' - counter then Inl MalformedVarint else Inr (v, c'))"
proof (induction buf arbitrary: res shift counter k)
  case Nil
  then show ?case by simp
next
  case (Cons b buf)
  show ?case
  proof (cases k)
    case 0
    with varint_read_counter [OF Cons.prems] show ?thesis by simp
  next
    case (Suc j)
    show ?thesis
    proof (cases "0x80 \<le> b")
      case True
      with Cons.prems have rd: "varint_read buf (res + unat (b AND 0x7F) * 2 ^ shift) (shift + 7)
          (Suc counter) = Inr (v, c')"
        by (simp add: Let_def)
      from varint_read_counter [OF rd] have "Suc counter < c'" by simp
      then have "(Suc j < c' - counter) = (j < c' - Suc counter)" by arith
      with Cons.IH [OF rd, of j] True Suc show ?thesis by (simp add: Let_def)
    next
      case False
      with Cons.prems Suc show ?thesis by (auto simp: Let_def)
    qed
  qed
qed

lemma decodeVarintAt_advances:
  "decodeVarintAt buf off = Inr d \<Longrightarrow> off < nextOffset d"
  by (auto simp: decodeVarintAt_def varint_decode_def bind_result_def
      split: sum.splits prod.splits dest: varint_read_counter)

lemma decodeVarintAt_take:
  assumes "decodeVarintAt buf off = Inr d"
  shows "decodeVarintAt (take k buf) off =
     (if k < nextOffset d then Inl MalformedVarint else Inr d)"
proof -
  from assms obtain v l where rd: "varint_read (drop off buf) 0 0 0 = Inr (v, l)"
    and d: "d = \<lparr>value' = v, length' = l, nextOffset = off + l\<rparr>"
    by (auto simp: decodeVarintAt_def varint_decode_def subarray_def split: sum.splits prod.splits)
  have "drop off (take k buf) = take (k - off) (drop off buf)"
    by (simp add: drop_take)
  moreover from varint_read_counter [OF rd] have "0 < l" by simp
  then have "(k - off < l) = (k < off + l)" by arith
  ultimately show ?thesis
    using varint_read_take [OF rd, of "k - off"]
    by (simp add: decodeVarintAt_def varint_decode_def subarray_def d)
qed


lemma inspectVarsig_fields:
  assumes sh: "decodeVarintAt varsig (length VARSIG_PREFIX) = Inr sh"
    and tag: "find (\<lambda>(algo, code). code = value' sh) SIGNATURE_HEADER_TAGS = Some (name, c)"
    and ha: "decodeVarintAt varsig (nextOffset sh) = Inr ha"
    and sl: "decodeVarintAt varsig (nextOffset ha) = Inr sl"
    and ei: "decodeVarintAt varsig (nextOffset sl) = Inr ei"
  shows "inspectVarsig varsig =
     Inr \<lparr>prefix = toString_hex (slice varsig 0 (length VARSIG_PREFIX)),
          signatureHeader = number_toString16 (value' sh),
          hashAlgorithm = number_toString16 (value' ha),
          signatureByteLength =
            toString_hex (slice varsig (nextOffset ha) (nextOffset ha + length' sl)),
          encodingInfo = number_toString16 (value' ei),
          signature = slice varsig (nextOffset ei) (nextOffset ei + value' sl),
          algorithm = name,
          totalLength = length varsig\<rparr>"
  unfolding inspectVarsig_def Let_def
  by (simp only: sh tag ha sl ei bind_result_def sum.case option.map option.case fst_conv)

lemma inspectVarsig_truncated_fields:
  assumes sh: "decodeVarintAt varsig (length VARSIG_PREFIX) = Inr sh"
    and tag: "find (\<lambda>(algo, code). code = value' sh) SIGNATURE_HEADER_TAGS = Some (name, c)"
    and ha: "decodeVarintAt varsig (nextOffset sh) = Inr ha"
    and sl: "decodeVarintAt varsig (nextOffset ha) = Inr sl"
    and ei: "decodeVarintAt varsig (nextOffset sl) = Inr ei"
    and k: "k < nextOffset ei"
  shows "inspectVarsig (take k varsig) = Inl MalformedVarint"
proof -
  note t = decodeVarintAt_take [OF sh, of k] decodeVarintAt_take [OF ha, of k]
    decodeVarintAt_take [OF sl, of k] decodeVarintAt_take [OF ei, of k]
  show ?thesis
  proof (cases "k < nextOffset sh")
    case True
    with t show ?thesis by (simp add: inspectVarsig_def bind_result_def)
  next
    case n1: False
    show ?thesis
    proof (cases "k < nextOffset ha")
      case True
      with t n1 tag show ?thesis by (simp add: inspectVarsig_def bind_result_def)
    next
      case n2: False
      show ?thesis
      proof (cases "k < nextOffset sl")
        case True
        with t n1 n2 tag show ?thesis by (simp add: inspectVarsig_def bind_result_def)
      next
        case False
        with t n1 n2 tag k show ?thesis by (simp add: inspectVarsig_def bind_result_def)
      qed
    qed
  qed
qed

lemma inspectVarsig_truncated_signature:
  assumes sh: "decodeVarintAt varsig (length VARSIG_PREFIX) = Inr sh"
    and tag: "find (\<lambda>(algo, code). code = value' sh) SIGNATURE_HEADER_TAGS = Some (name, c)"
    and ha: "decodeVarintAt varsig (nextOffset sh) = Inr ha"
    and sl: "decodeVarintAt varsig (nextOffset ha) = Inr sl"
    and ei: "decodeVarintAt varsig (nextOffset sl) = Inr ei"
    and k: "nextOffset ei \<le> k"
  shows "\<exists>r'. inspectVarsig (take k varsig) = Inr r' \<and>
     signature r' = take (k - nextOffset ei)
       (slice varsig (nextOffset ei) (nextOffset ei + value' sl))"
proof -
  from decodeVarintAt_advances [OF sh] decodeVarintAt_advances [OF ha]
    decodeVarintAt_advances [OF sl] decodeVarintAt_advances [OF ei] k
  have ks: "\<not> k < nextOffset sh" "\<not> k < nextOffset ha" "\<not> k < nextOffset sl"
    "\<not> k < nextOffset ei"
    by simp_all
  have t: "decodeVarintAt (take k varsig) (length VARSIG_PREFIX) = Inr sh"
    "decodeVarintAt (take k varsig) (nextOffset sh) = Inr ha"
    "decodeVarintAt (take k varsig) (nextOffset ha) = Inr sl"
    "decodeVarintAt (take k varsig) (nextOffset sl) = Inr ei"
    using decodeVarintAt_take [OF sh, of k] decodeVarintAt_take [OF ha, of k]
      decodeVarintAt_take [OF sl, of k] decodeVarintAt_take [OF ei, of k] ks
    by simp_all
  have "take (k - nextOffset ei) (drop (nextOffset ei) (take (nextOffset ei + value' sl) varsig))
      = drop (nextOffset ei) (take (k - nextOffset ei + nextOffset ei)
          (take (nextOffset ei + value' sl) varsig))"
    by (rule take_drop)
  also have "k - nextOffset ei + nextOffset ei = k" using k by simp
  finally have "slice (take k varsig) (nextOffset ei) (nextOffset ei + value' sl) =
      take (k - nextOffset ei) (slice varsig (nextOffset ei) (nextOffset ei + value' sl))"
    by (simp add: slice_def min.commute)
  with inspectVarsig_fields [OF t(1) tag t(2) t(3) t(4)] show ?thesis by simp
qed

lemma registered_tag:
  "c \<in> snd ` set SIGNATURE_HEADER_TAGS \<Longrightarrow>
   \<exists>name. find (\<lambda>(algo, code). code = c) SIGNATURE_HEADER_TAGS = Some (name, c)"
  by (auto simp: SIGNATURE_HEADER_TAGS_def)

lemma inspectVarsig_algorithm:
  assumes "inspectVarsig varsig = Inr r"
  shows "\<exists>sh. decodeVarintAt varsig (length VARSIG_PREFIX) = Inr sh \<and>
     find (\<lambda>(algo, code). code = value' sh) SIGNATURE_HEADER_TAGS = Some (algorithm r, value' sh)"
  using assms
  by (auto simp: inspectVarsig_def bind_result_def Let_def find_Some_iff
      split: sum.splits option.splits)

lemma inspectVarsig_unknown:
  assumes "decodeVarintAt varsig (length VARSIG_PREFIX) = Inr sh"
    and "value' sh \<notin> snd ` set SIGNATURE_HEADER_TAGS"
  shows "inspectVarsig varsig = Inl (UnknownAlgorithm (value' sh))"
proof -
  from assms(2) have "find (\<lambda>(algo, code). code = value' sh) SIGNATURE_HEADER_TAGS = None"
    by (force simp: find_None_iff)
  with assms(1) show ?thesis
    by (simp add: inspectVarsig_def bind_result_def)
qed

lemma algorithm_registered:
  assumes "inspectVarsig varsig = Inr r"
  shows "algorithm r \<in> {''ed25519'', ''rsa'', ''bls''}"
proof -
  from inspectVarsig_algorithm [OF assms] obtain c where
    "find (\<lambda>(algo, code). code = c) SIGNATURE_HEADER_TAGS = Some (algorithm r, c)"
    by blast
  then show ?thesis
    by (auto simp: SIGNATURE_HEADER_TAGS_def split: if_splits)
qed

lemma varint_read_error:
  "varint_read buf res shift counter = Inl e \<Longrightarrow> e = MalformedVarint"
  by (induction buf arbitrary: res shift counter) (auto simp: Let_def split: if_splits)

lemma decodeVarintAt_error:
  "decodeVarintAt buffer offset = Inl e \<Longrightarrow> e = MalformedVarint"
  by (auto simp: decodeVarintAt_def varint_decode_def split: sum.splits prod.splits
      dest: varint_read_error)

lemma inspectVarsig_registered_error:
  assumes sh: "decodeVarintAt varsig (length VARSIG_PREFIX) = Inr sh"
    and tag: "find (\<lambda>(algo, code). code = value' sh) SIGNATURE_HEADER_TAGS = Some (name, c)"
    and err: "inspectVarsig varsig = Inl e"
  shows "e = MalformedVarint"
  using err
  by (auto simp: inspectVarsig_def Let_def sh tag bind_result_def split: sum.splits
      dest: decodeVarintAt_error)

lemma registered_name:
  assumes "c \<in> {0xed, 0x1205, 0x1309}"
  shows "find (\<lambda>(algo, code). code = c) SIGNATURE_HEADER_TAGS =
     Some (if c = 0xed then ''ed25519'' else if c = 0x1205 then ''rsa'' else ''bls'', c)"
  using assms by (auto simp: SIGNATURE_HEADER_TAGS_def)

section \<open>The inspector and the verifier: claims C3, C4, C9, C10\<close>

text \<open>
  C3, as stated: a buffer whose prefix and four varints decode but which holds fewer bytes
  after them than the signature length it declares makes inspectVarsig fail. The buffer
  below declares 0x40 = 64 signature bytes and holds two; inspectVarsig returns a result,
  with those two bytes as the signature.
\<close>

theorem truncated_signature_counterexample:
  "inspectVarsig [0x34, 0xed, 0x01, 0x12, 0x40, 0x5f, 0xaa, 0xbb] =
     Inr \<lparr>prefix = ''34'', signatureHeader = ''ed'', hashAlgorithm = ''12'',
          signatureByteLength = ''40'', encodingInfo = ''5f'',
          signature = [0xaa, 0xbb], algorithm = ''ed25519'', totalLength = 8\<rparr>"
  by code_simp

text \<open>
  C3, amended: for every buffer whose four varints decode, with a registered signature
  header, inspectVarsig returns a result whose signature is the bytes that follow the
  four fields, at most as many as declared: fewer than declared when the buffer ends
  early. Cut at any byte boundary before the start of the signature, the buffer makes
  inspectVarsig fail with the malformed-varint error; cut at or after it, the buffer
  makes inspectVarsig return a result with the signature cut short.
\<close>

theorem truncated_envelope:
  assumes sh: "decodeVarintAt varsig (length VARSIG_PREFIX) = Inr sh"
    and reg: "value' sh \<in> snd ` set SIGNATURE_HEADER_TAGS"
    and ha: "decodeVarintAt varsig (nextOffset sh) = Inr ha"
    and sl: "decodeVarintAt varsig (nextOffset ha) = Inr sl"
    and ei: "decodeVarintAt varsig (nextOffset sl) = Inr ei"
  shows "\<exists>r. inspectVarsig varsig = Inr r
     \<and> signature r = take (value' sl) (drop (nextOffset ei) varsig)
     \<and> length (signature r) = min (value' sl) (length varsig - nextOffset ei)
     \<and> (\<forall>k. k < nextOffset ei \<longrightarrow> inspectVarsig (take k varsig) = Inl MalformedVarint)
     \<and> (\<forall>k. nextOffset ei \<le> k \<longrightarrow>
          (\<exists>r'. inspectVarsig (take k varsig) = Inr r'
             \<and> signature r' = take (k - nextOffset ei) (signature r)))"
proof -
  from registered_tag [OF reg] obtain name where
    tag: "find (\<lambda>(algo, code). code = value' sh) SIGNATURE_HEADER_TAGS = Some (name, value' sh)"
    by blast
  have s: "slice varsig (nextOffset ei) (nextOffset ei + value' sl)
      = take (value' sl) (drop (nextOffset ei) varsig)"
    by (simp add: slice_def take_drop add.commute)
  note full = inspectVarsig_fields [OF sh tag ha sl ei]
  note short = inspectVarsig_truncated_fields [OF sh tag ha sl ei]
  note long = inspectVarsig_truncated_signature [OF sh tag ha sl ei]
  show ?thesis
    using full short long by (simp add: s)
qed

theorem truncated_envelope_witness:
  "(\<exists>r. inspectVarsig [0x34, 0xed, 0x01, 0x12, 0x40, 0x5f, 0xaa, 0xbb] = Inr r
       \<and> signature r = [0xaa, 0xbb] \<and> length (signature r) = 2)
   \<and> inspectVarsig (take 5 [0x34, 0xed, 0x01, 0x12, 0x40, 0x5f, 0xaa, 0xbb]) = Inl MalformedVarint
   \<and> (\<exists>r'. inspectVarsig (take 7 [0x34, 0xed, 0x01, 0x12, 0x40, 0x5f, 0xaa, 0xbb]) = Inr r'
       \<and> signature r' = [0xaa])"
proof -
  let ?v = "[0x34, 0xed, 0x01, 0x12, 0x40, 0x5f, 0xaa, 0xbb] :: bytes"
  have sh: "decodeVarintAt ?v (length VARSIG_PREFIX)
      = Inr \<lparr>value' = 0xed, length' = 2, nextOffset = 3\<rparr>" by code_simp
  have reg: "value' \<lparr>value' = 0xed, length' = 2, nextOffset = 3\<rparr>
      \<in> snd ` set SIGNATURE_HEADER_TAGS"
    by (simp add: SIGNATURE_HEADER_TAGS_def)
  have ha: "decodeVarintAt ?v (nextOffset \<lparr>value' = 0xed, length' = 2, nextOffset = 3\<rparr>)
      = Inr \<lparr>value' = 0x12, length' = 1, nextOffset = 4\<rparr>" by code_simp
  have sl: "decodeVarintAt ?v (nextOffset \<lparr>value' = 0x12, length' = 1, nextOffset = 4\<rparr>)
      = Inr \<lparr>value' = 0x40, length' = 1, nextOffset = 5\<rparr>" by code_simp
  have ei: "decodeVarintAt ?v (nextOffset \<lparr>value' = 0x40, length' = 1, nextOffset = 5\<rparr>)
      = Inr \<lparr>value' = 0x5f, length' = 1, nextOffset = 6\<rparr>" by code_simp
  from truncated_envelope [OF sh reg ha sl ei] obtain r where
    r: "inspectVarsig ?v = Inr r"
      "signature r = take 0x40 (drop 6 ?v)"
      "\<forall>k. k < 6 \<longrightarrow> inspectVarsig (take k ?v) = Inl MalformedVarint"
      "\<forall>k. 6 \<le> k \<longrightarrow> (\<exists>r'. inspectVarsig (take k ?v) = Inr r'
          \<and> signature r' = take (k - 6) (signature r))"
    by auto
  have a: "inspectVarsig (take 5 ?v) = Inl MalformedVarint"
    using r(3) [THEN spec, of 5] by simp
  have "\<exists>r'. inspectVarsig (take 7 ?v) = Inr r'
      \<and> signature r' = take (7 - 6) (signature r)"
    using r(4) [THEN spec, of 7] by simp
  then have b: "\<exists>r'. inspectVarsig (take 7 ?v) = Inr r' \<and> signature r' = [0xaa]"
    by (simp add: r(2))
  from r(1,2) have c: "\<exists>r. inspectVarsig ?v = Inr r
       \<and> signature r = [0xaa, 0xbb] \<and> length (signature r) = 2" by simp
  from a b c show ?thesis by blast
qed

text \<open>
  C4. When the signature-header varint decodes to a value that is none of the registered
  tags 0xed, 0x1205 and 0x1309, inspectVarsig raises the unknown-algorithm error for that
  value. When it decodes to a registered tag, inspectVarsig raises no unknown-algorithm
  error (its only possible error is that of a malformed varint in a later field), and
  when the three later varints decode it returns a result whose algorithm field is the
  name registered for the tag. Whenever inspectVarsig returns a result, its algorithm
  field is the name of the first entry of the tag table that carries the decoded tag.
\<close>

theorem unknown_or_first_registered:
  assumes "decodeVarintAt varsig (length VARSIG_PREFIX) = Inr sh"
  shows "(value' sh \<notin> {0xed, 0x1205, 0x1309} \<longrightarrow>
            inspectVarsig varsig = Inl (UnknownAlgorithm (value' sh)))
     \<and> (value' sh \<in> {0xed, 0x1205, 0x1309} \<longrightarrow>
          (\<forall>c. inspectVarsig varsig \<noteq> Inl (UnknownAlgorithm c))
          \<and> (\<forall>e. inspectVarsig varsig = Inl e \<longrightarrow> e = MalformedVarint)
          \<and> (\<forall>ha sl ei.
                decodeVarintAt varsig (nextOffset sh) = Inr ha \<longrightarrow>
                decodeVarintAt varsig (nextOffset ha) = Inr sl \<longrightarrow>
                decodeVarintAt varsig (nextOffset sl) = Inr ei \<longrightarrow>
                (\<exists>r. inspectVarsig varsig = Inr r
                   \<and> algorithm r =
                       (if value' sh = 0xed then ''ed25519''
                        else if value' sh = 0x1205 then ''rsa'' else ''bls''))))
     \<and> (\<forall>r. inspectVarsig varsig = Inr r \<longrightarrow>
          (\<exists>i < length SIGNATURE_HEADER_TAGS.
             SIGNATURE_HEADER_TAGS ! i = (algorithm r, value' sh)
             \<and> (\<forall>j < i. snd (SIGNATURE_HEADER_TAGS ! j) \<noteq> value' sh)))"
proof -
  have unknown: "inspectVarsig varsig = Inl (UnknownAlgorithm (value' sh))"
    if "value' sh \<notin> {0xed, 0x1205, 0x1309}"
  proof -
    from that have "value' sh \<notin> snd ` set SIGNATURE_HEADER_TAGS"
      by (simp add: SIGNATURE_HEADER_TAGS_def)
    with assms show ?thesis by (rule inspectVarsig_unknown)
  qed
  have only_malformed: "e = MalformedVarint"
    if "value' sh \<in> {0xed, 0x1205, 0x1309}" and "inspectVarsig varsig = Inl e" for e
    using inspectVarsig_registered_error [OF assms registered_name [OF that(1)] that(2)] .
  have no_unknown: "inspectVarsig varsig \<noteq> Inl (UnknownAlgorithm c)"
    if "value' sh \<in> {0xed, 0x1205, 0x1309}" for c
    using only_malformed [OF that, of "UnknownAlgorithm c"] by auto
  have resolved: "\<exists>r. inspectVarsig varsig = Inr r
      \<and> algorithm r = (if value' sh = 0xed then ''ed25519''
           else if value' sh = 0x1205 then ''rsa'' else ''bls'')"
    if "value' sh \<in> {0xed, 0x1205, 0x1309}"
      and "decodeVarintAt varsig (nextOffset sh) = Inr ha"
      and "decodeVarintAt varsig (nextOffset ha) = Inr sl"
      and "decodeVarintAt varsig (nextOffset sl) = Inr ei" for ha sl ei
    using inspectVarsig_fields [OF assms registered_name [OF that(1)] that(2) that(3) that(4)]
    by simp
  have first: "\<exists>i < length SIGNATURE_HEADER_TAGS.
      SIGNATURE_HEADER_TAGS ! i = (algorithm r, value' sh)
      \<and> (\<forall>j < i. snd (SIGNATURE_HEADER_TAGS ! j) \<noteq> value' sh)"
    if r: "inspectVarsig varsig = Inr r" for r
  proof -
    from inspectVarsig_algorithm [OF r] assms
    have "find (\<lambda>(algo, code). code = value' sh) SIGNATURE_HEADER_TAGS
        = Some (algorithm r, value' sh)"
      by simp
    then obtain i where i: "i < length SIGNATURE_HEADER_TAGS"
        "(algorithm r, value' sh) = SIGNATURE_HEADER_TAGS ! i"
        "\<forall>j < i. \<not> (case SIGNATURE_HEADER_TAGS ! j of (algo, code) \<Rightarrow> code = value' sh)"
      unfolding find_Some_iff by blast
    from i(3) have "\<forall>j < i. snd (SIGNATURE_HEADER_TAGS ! j) \<noteq> value' sh"
      by (simp add: case_prod_beta)
    with i(1,2) show ?thesis by auto
  qed
  from unknown only_malformed no_unknown resolved first show ?thesis by blast
qed

theorem unknown_or_first_registered_witness:
  "inspectVarsig [0x34, 0x05, 0x12, 0x00, 0x5f] = Inl (UnknownAlgorithm 5)
   \<and> inspectVarsig [0x34, 0x85, 0x24, 0x12, 0x00, 0x5f] \<noteq> Inl (UnknownAlgorithm 0x1205)
   \<and> (\<exists>r. inspectVarsig [0x34, 0x85, 0x24, 0x12, 0x00, 0x5f] = Inr r
        \<and> algorithm r = ''rsa''
        \<and> SIGNATURE_HEADER_TAGS ! 1 = (algorithm r, 0x1205))
   \<and> inspectVarsig [0x34, 0xed, 0x01, 0x92] = Inl MalformedVarint"
proof -
  let ?u = "[0x34, 0x05, 0x12, 0x00, 0x5f] :: bytes"
  let ?v = "[0x34, 0x85, 0x24, 0x12, 0x00, 0x5f] :: bytes"
  let ?w = "[0x34, 0xed, 0x01, 0x92] :: bytes"
  let ?sh = "\<lparr>value' = 0x1205, length' = 2, nextOffset = 3\<rparr>"
  let ?ha = "\<lparr>value' = 0x12, length' = 1, nextOffset = 4\<rparr>"
  let ?sl = "\<lparr>value' = 0, length' = 1, nextOffset = 5\<rparr>"
  let ?ei = "\<lparr>value' = 0x5f, length' = 1, nextOffset = 6\<rparr>"
  have du: "decodeVarintAt ?u (length VARSIG_PREFIX)
      = Inr \<lparr>value' = 5, length' = 1, nextOffset = 2\<rparr>" by code_simp
  have dv: "decodeVarintAt ?v (length VARSIG_PREFIX) = Inr ?sh" by code_simp
  have d2: "decodeVarintAt ?v (nextOffset ?sh) = Inr ?ha" by code_simp
  have d3: "decodeVarintAt ?v (nextOffset ?ha) = Inr ?sl" by code_simp
  have d4: "decodeVarintAt ?v (nextOffset ?sl) = Inr ?ei" by code_simp
  have dw: "decodeVarintAt ?w (length VARSIG_PREFIX)
      = Inr \<lparr>value' = 0xed, length' = 2, nextOffset = 3\<rparr>" by code_simp
  have a: "inspectVarsig ?u = Inl (UnknownAlgorithm 5)"
    using unknown_or_first_registered [OF du] by simp
  have b: "inspectVarsig ?v \<noteq> Inl (UnknownAlgorithm 0x1205)"
    using unknown_or_first_registered [OF dv] by simp
  have "\<exists>r. inspectVarsig ?v = Inr r \<and> algorithm r = ''rsa''"
    using unknown_or_first_registered [OF dv] d2 d3 d4 by simp
  then obtain r where r: "inspectVarsig ?v = Inr r" "algorithm r = ''rsa''" by blast
  with unknown_or_first_registered [OF dv] obtain i where
    i: "i < length SIGNATURE_HEADER_TAGS" "SIGNATURE_HEADER_TAGS ! i = (algorithm r, 0x1205)"
    by auto
  from i(1) have "i = 0 \<or> i = 1 \<or> i = 2"
    by (auto simp: SIGNATURE_HEADER_TAGS_def)
  with i(2) have "i = 1" by (auto simp: SIGNATURE_HEADER_TAGS_def)
  with i(2) r have c: "\<exists>r. inspectVarsig ?v = Inr r \<and> algorithm r = ''rsa''
      \<and> SIGNATURE_HEADER_TAGS ! 1 = (algorithm r, 0x1205)" by auto
  have "isl (inspectVarsig ?w)" by code_simp
  then obtain e where e: "inspectVarsig ?w = Inl e" by (auto simp: isl_def)
  with unknown_or_first_registered [OF dw] have "e = MalformedVarint" by simp
  with e have d: "inspectVarsig ?w = Inl MalformedVarint" by simp
  from a b c d show ?thesis by blast
qed

text \<open>
  C9, as stated: for every varsig that decodes into a structurally valid envelope, verify
  returns a boolean and raises no error. verify hands the outcome of the algorithm's
  verifying capability on unchanged, an error included. The envelope below is valid, with
  the BLS tag and an empty signature; with a library whose BLS signature parser rejects
  it, verify raises the parser's error.
\<close>

theorem verify_raises_counterexample:
  "inspectVarsig [0x34, 0x89, 0x26, 0x12, 0x00, 0x5f] =
     Inr \<lparr>prefix = ''34'', signatureHeader = ''1309'', hashAlgorithm = ''12'',
          signatureByteLength = ''00'', encodingInfo = ''5f'',
          signature = [], algorithm = ''bls'', totalLength = 6\<rparr>
   \<and> verify demoLibs [0x68, 0x69] [0x34, 0x89, 0x26, 0x12, 0x00, 0x5f] (Uint8ArrayKey [7])
       = Inl (CapabilityError 0)"
  by code_simp

text \<open>
  C9, amended: a structural error of the decoder always surfaces from verify as that error.
  For a varsig that decodes, verify returns what the verifying capability of the resolved
  algorithm returns on the payload, the signature bytes and the public key: its boolean
  when it returns one, false included, and its error when it raises. For BLS that is the
  error of parsing the signature bytes, or else the outcome of the BLS check.
\<close>

theorem verify_outcome:
  "(\<forall>e. inspectVarsig varsig = Inl e \<longrightarrow> verify L payload varsig publicKey = Inl e)
   \<and> (\<forall>r. inspectVarsig varsig = Inr r \<longrightarrow>
        (algorithm r = ''ed25519''
           \<and> verify L payload varsig publicKey
               = ED25519_verify L (signature r) payload publicKey)
        \<or> (algorithm r = ''rsa''
           \<and> verify L payload varsig publicKey
               = subtle_verify L publicKey (signature r) payload)
        \<or> (algorithm r = ''bls''
           \<and> verify L payload varsig publicKey
               = (case bls_Signature_fromHex L (signature r) of
                    Inl e \<Rightarrow> Inl e
                  | Inr sig \<Rightarrow> bls_verify L sig payload publicKey)))"
proof (intro conjI allI impI)
  fix e assume "inspectVarsig varsig = Inl e"
  then show "verify L payload varsig publicKey = Inl e"
    by (simp add: verify_def bind_result_def)
next
  fix r assume r: "inspectVarsig varsig = Inr r"
  from algorithm_registered [OF r]
  have "algorithm r = ''ed25519'' \<or> algorithm r = ''rsa'' \<or> algorithm r = ''bls''"
    by simp
  then show "(algorithm r = ''ed25519''
           \<and> verify L payload varsig publicKey
               = ED25519_verify L (signature r) payload publicKey)
        \<or> (algorithm r = ''rsa''
           \<and> verify L payload varsig publicKey
               = subtle_verify L publicKey (signature r) payload)
        \<or> (algorithm r = ''bls''
           \<and> verify L payload varsig publicKey
               = (case bls_Signature_fromHex L (signature r) of
                    Inl e \<Rightarrow> Inl e
                  | Inr sig \<Rightarrow> bls_verify L sig payload publicKey))"
    using r
    by (auto simp: verify_def bind_result_def cryptoAlgorithms_def ed25519Implementation_def
        rsaImplementation_def blsImplementation_def)
qed

theorem verify_outcome_witness:
  "verify demoLibs [0x68, 0x69] [0x34] (Uint8ArrayKey [7]) = Inl MalformedVarint
   \<and> verify demoLibs [0x68, 0x69] [0x34, 0xed, 0x01, 0x12, 0x01, 0x5f, 0x07] (Uint8ArrayKey [7])
       = Inr False"
proof -
  let ?v = "[0x34, 0xed, 0x01, 0x12, 0x01, 0x5f, 0x07] :: bytes"
  define r where "r = \<lparr>prefix = ''34'', signatureHeader = ''ed'', hashAlgorithm = ''12'',
      signatureByteLength = ''01'', encodingInfo = ''5f'', signature = [0x07],
      algorithm = ''ed25519'', totalLength = 7\<rparr>"
  have e: "inspectVarsig [0x34] = Inl MalformedVarint" by code_simp
  have r: "inspectVarsig ?v = Inr r" unfolding r_def by code_simp
  have a: "verify demoLibs [0x68, 0x69] [0x34] (Uint8ArrayKey [7]) = Inl MalformedVarint"
    using verify_outcome [of "[0x34]" demoLibs "[0x68, 0x69]" "Uint8ArrayKey [7]"] e by blast
  have "verify demoLibs [0x68, 0x69] ?v (Uint8ArrayKey [7])
      = ED25519_verify demoLibs (signature r) [0x68, 0x69] (Uint8ArrayKey [7])"
    using verify_outcome [of ?v demoLibs "[0x68, 0x69]" "Uint8ArrayKey [7]"] r
    by (auto simp: r_def)
  moreover have "ED25519_verify demoLibs (signature r) [0x68, 0x69] (Uint8ArrayKey [7])
      = Inr False"
    unfolding r_def by code_simp
  ultimately have b: "verify demoLibs [0x68, 0x69] ?v (Uint8ArrayKey [7]) = Inr False"
    by simp
  from a b show ?thesis by simp
qed

text \<open>
  C10. Neither inspectVarsig nor verify compares the first byte with 0x34. For two buffers
  that differ only in their first byte, inspectVarsig raises the same error on both or
  returns results that differ only in the prefix field, and verify returns the same
  outcome on both.
\<close>

theorem first_byte_ignored:
  "(\<forall>e. inspectVarsig (b1 # rest) = Inl e \<longrightarrow> inspectVarsig (b2 # rest) = Inl e)
   \<and> (\<forall>r. inspectVarsig (b1 # rest) = Inr r \<longrightarrow>
        prefix r = toString_hex [b1]
        \<and> inspectVarsig (b2 # rest) = Inr (r\<lparr>prefix := toString_hex [b2]\<rparr>))
   \<and> verify L payload (b1 # rest) publicKey = verify L payload (b2 # rest) publicKey"
proof (intro conjI allI impI)
  fix e assume "inspectVarsig (b1 # rest) = Inl e"
  then show "inspectVarsig (b2 # rest) = Inl e"
    using inspectVarsig_first_byte [of b2 rest b1] by simp
next
  fix r assume r: "inspectVarsig (b1 # rest) = Inr r"
  then show "inspectVarsig (b2 # rest) = Inr (r\<lparr>prefix := toString_hex [b2]\<rparr>)"
    using inspectVarsig_first_byte [of b2 rest b1] by simp
  from r show "prefix r = toString_hex [b1]"
    using inspectVarsig_first_byte [of b1 rest b1] by (cases r) auto
next
  show "verify L payload (b1 # rest) publicKey = verify L payload (b2 # rest) publicKey"
    using inspectVarsig_first_byte [of b2 rest b1]
    by (cases "inspectVarsig (b1 # rest)")
       (auto simp: verify_def bind_result_def split: option.splits)
qed

theorem first_byte_ignored_witness:
  "inspectVarsig [0x00, 0xed, 0x01, 0x12, 0x01, 0x5f, 0x07] =
     Inr \<lparr>prefix = ''00'', signatureHeader = ''ed'', hashAlgorithm = ''12'',
          signatureByteLength = ''01'', encodingInfo = ''5f'', signature = [0x07],
          algorithm = ''ed25519'', totalLength = 7\<rparr>
   \<and> inspectVarsig [0xff, 0xed] = Inl MalformedVarint
   \<and> verify demoLibs [0x68] [0x00, 0xed, 0x01, 0x12, 0x01, 0x5f, 0x07] (Uint8ArrayKey [])
       = Inr False"
proof -
  let ?rest = "[0xed, 0x01, 0x12, 0x01, 0x5f, 0x07] :: bytes"
  define r where "r = \<lparr>prefix = ''34'', signatureHeader = ''ed'', hashAlgorithm = ''12'',
      signatureByteLength = ''01'', encodingInfo = ''5f'', signature = [0x07],
      algorithm = ''ed25519'', totalLength = 7\<rparr>"
  have r: "inspectVarsig (0x34 # ?rest) = Inr r" unfolding r_def by code_simp
  have e: "inspectVarsig (0x34 # [0xed]) = Inl MalformedVarint" by code_simp
  have v: "verify demoLibs [0x68] (0x34 # ?rest) (Uint8ArrayKey []) = Inr False" by code_simp
  have h: "toString_hex [0x00] = ''00''" by code_simp
  have a: "inspectVarsig (0x00 # ?rest) = Inr (r\<lparr>prefix := toString_hex [0x00]\<rparr>)"
    using first_byte_ignored [of "0x34" ?rest "0x00"] r by blast
  have b: "inspectVarsig (0xff # [0xed]) = Inl MalformedVarint"
    using first_byte_ignored [of "0x34" "[0xed]" "0xff"] e by blast
  have c: "verify demoLibs [0x68] (0x00 # ?rest) (Uint8ArrayKey []) = Inr False"
    using first_byte_ignored [of "0x34" ?rest "0x00" demoLibs "[0x68]" "Uint8ArrayKey []"] v
    by simp
  from a b c show ?thesis by (simp add: r_def h)
qed

end
